theory Spec2Isabelle
  imports Main
begin

section \<open>Paths (\<^verbatim>\<open>boost::filesystem::path\<close>, as used by \<^verbatim>\<open>src/plugin/utils.h\<close>)\<close>

text \<open>
  \<^verbatim>\<open>find_dominating_file\<close> uses three operations of \<^verbatim>\<open>boost::filesystem::path\<close>:
  comparison with the empty path (\<^verbatim>\<open>starting_dir != ""\<close>), \<^verbatim>\<open>operator/\<close> and
  \<^verbatim>\<open>parent_path()\<close>. A path is modelled by the sequence of its elements, the sequence an
  iteration from \<^verbatim>\<open>begin()\<close> to \<^verbatim>\<open>end()\<close> visits:
  \<^item> the absolute path \<^verbatim>\<open>/home/user/.wine\<close> is \<open>[''/'', ''home'', ''user'', ''.wine'']\<close>
    (the root directory is the first element),
  \<^item> the relative path \<^verbatim>\<open>plugins/synth\<close> is \<open>[''plugins'', ''synth'']\<close>,
  \<^item> the empty path \<^verbatim>\<open>""\<close> is \<open>[]\<close>.

  The Boost.Filesystem reference specifies \<^verbatim>\<open>parent_path()\<close> on this sequence:
  \<^verbatim>\<open>(empty() || begin() == --end()) ? path() : pp\<close>, where \<^verbatim>\<open>pp\<close> is built from the elements
  in the range \<^verbatim>\<open>[begin(), --end())\<close>. So the result is the empty path when the path is empty
  or has a single element, and otherwise the path made of all elements but the last one.
  In particular the parent of the root directory \<^verbatim>\<open>/\<close> is the empty path, and so is the
  parent of a single relative name (lemma \<open>parent_path_examples\<close>). This is Boost's
  behaviour, which the header includes; in \<^verbatim>\<open>std::filesystem\<close> the parent of the root
  directory is the root directory itself.
\<close>

datatype path = Path (elements: "string list")

definition empty_path :: path where
  "empty_path = Path []"

definition parent_path :: "path \<Rightarrow> path" where
  "parent_path p = Path (butlast (elements p))"

text \<open>
  \<^verbatim>\<open>starting_dir / filename\<close>: the name is appended as one more element. No statement below
  depends on how the appended name is laid out.
\<close>

definition path_append :: "path \<Rightarrow> string \<Rightarrow> path" where
  "path_append p name = Path (elements p @ [name])"


section \<open>\<^verbatim>\<open>find_dominating_file\<close> (\<^verbatim>\<open>src/plugin/utils.h\<close>, lines 214 to 229)\<close>

text \<open>
  \<^verbatim>\<open>
  while (starting_dir != "") {
      const boost::filesystem::path candidate = starting_dir / filename;
      if (predicate(candidate)) {
          return candidate;
      }
      starting_dir = starting_dir.parent_path();
  }
  return std::nullopt;
  \<close>
  The loop is a recursive function in the option monad: the outer \<open>option\<close> is \<open>None\<close>
  exactly when the loop does not return, the inner one is the \<^verbatim>\<open>std::optional\<close> of the
  source (\<open>None\<close> for \<^verbatim>\<open>std::nullopt\<close>). The predicate is a function on paths; the
  default argument \<^verbatim>\<open>boost::filesystem::exists\<close> is one such function for a fixed state
  of the file system.
\<close>

partial_function (option) find_dominating_file ::
  "string \<Rightarrow> path \<Rightarrow> (path \<Rightarrow> bool) \<Rightarrow> path option option" where
  "find_dominating_file filename starting_dir predicate =
     (if starting_dir \<noteq> empty_path then
        (let candidate = path_append starting_dir filename in
         if predicate candidate then Some (Some candidate)
         else find_dominating_file filename (parent_path starting_dir) predicate)
      else Some None)"

declare find_dominating_file.simps [code]

text \<open>
  The ancestor chain of a directory, in the words of the documentation ("go up in the
  directory hierarchy"): the directory itself first, then each successive parent, for as
  long as the path is not empty. A path of \<open>n\<close> elements has \<open>n\<close> such ancestors (lemma
  \<open>iterated_parent_empty_iff\<close> below: the \<open>i\<close>-th parent is empty exactly from \<open>i = n\<close> on).
\<close>

definition ancestor_chain :: "path \<Rightarrow> path list" where
  "ancestor_chain d = map (\<lambda>i. (parent_path ^^ i) d) [0..<length (elements d)]"


section \<open>The editor of \<^verbatim>\<open>Vst2Bridge\<close> (\<^verbatim>\<open>src/unnamed/part_000\<close>)\<close>

text \<open>
  The field \<^verbatim>\<open>std::variant<std::monostate, Editor, EditorOpening> editor\<close> (lines 191 to
  214) has three states: \<^verbatim>\<open>std::monostate\<close> when the editor is closed, an \<^verbatim>\<open>Editor\<close>
  object (the embedded window, identified here by its handle) when it is open, and
  \<^verbatim>\<open>EditorOpening\<close> between \<^verbatim>\<open>effEditGetRect\<close> and \<^verbatim>\<open>effEditOpen\<close>.
\<close>

type_synonym window_handle = nat

datatype editor = Monostate | Editor window_handle | EditorOpening

datatype opcode = effEditGetRect | effEditOpen | effEditClose | effOther int

text \<open>The error conditions of the bridge (section 7 of the specification).\<close>

datatype error = SetupFailure | PeerDisconnected | UnsupportedBinary

text \<open>What a dispatch does to native windows.\<close>

datatype window_action = CreateWindow window_handle | ReleaseWindow window_handle

text \<open>The windows an editor state owns.\<close>

fun open_windows :: "editor \<Rightarrow> window_handle list" where
  "open_windows (Editor w) = [w]"
| "open_windows Monostate = []"
| "open_windows EditorOpening = []"

text \<open>
  Modelled from the spec: the body of \<^verbatim>\<open>Vst2Bridge::dispatch_wrapper\<close>, which the sources
  only declare (lines 96 to 105, "a wrapper around \<^verbatim>\<open>plugin->dispatcher\<close> that handles the
  opening and closing of GUIs"). The relation has one rule for each transition that
  section 4.5 of the specification states, and no other:
  \<^item> \<open>get_rect\<close>: Closed to Opening, when the host asks for the editor's rectangle;
  \<^item> \<open>open_editor\<close>: Opening to Open, when the host dispatches the open call; a native
    window handle is created;
  \<^item> \<open>close_editor\<close>: Open to Closed, on the close dispatch; the embedded window is released;
  \<^item> \<open>open_again\<close>, \<open>close_again\<close>: an attempt to open while already Open, or to close
    while already Closed, is a no-op and not an error.

  \<open>dispatch_wrapper e opcode out acts e'\<close> holds when the dispatch of \<open>opcode\<close> in editor
  state \<open>e\<close> can end with the outcome \<open>out\<close> (\<open>Inr\<close> of the plugin's return value, or
  \<open>Inl\<close> of an error), having done the window actions \<open>acts\<close>, in editor state \<open>e'\<close>.
  The plugin's return value and the handle of a created window come from outside the
  bridge, so the rules leave them free. What the wrapper does at the pairs of state and
  opcode that the specification does not mention is left open: no rule covers them.
\<close>

inductive dispatch_wrapper ::
  "editor \<Rightarrow> opcode \<Rightarrow> error + int \<Rightarrow> window_action list \<Rightarrow> editor \<Rightarrow> bool" where
  get_rect: "dispatch_wrapper Monostate effEditGetRect (Inr ret) [] EditorOpening"
| open_editor: "dispatch_wrapper EditorOpening effEditOpen (Inr ret) [CreateWindow w] (Editor w)"
| close_editor: "dispatch_wrapper (Editor w) effEditClose (Inr ret) [ReleaseWindow w] Monostate"
| open_again: "dispatch_wrapper (Editor w) effEditOpen (Inr ret) [] (Editor w)"
| close_again: "dispatch_wrapper Monostate effEditClose (Inr ret) [] Monostate"

code_pred dispatch_wrapper .

inductive_cases dispatch_wrapper_open: "dispatch_wrapper e effEditOpen out acts e'"

inductive_cases dispatch_wrapper_close: "dispatch_wrapper e effEditClose out acts e'"


section \<open>Properties of the path model\<close>

lemma elements_parent_path: "elements (parent_path p) = butlast (elements p)"
  by (simp add: parent_path_def)

lemma parent_path_examples:
  "parent_path (Path [''/'', ''home'', ''user'']) = Path [''/'', ''home'']"
  "parent_path (Path [''/'', ''home'']) = Path [''/'']"
  "parent_path (Path [''/'']) = empty_path"
  "parent_path (Path [''plugins'', ''synth'']) = Path [''plugins'']"
  "parent_path (Path [''plugins'']) = empty_path"
  "parent_path empty_path = empty_path"
  by (simp_all add: parent_path_def empty_path_def)

lemma elements_iterated_parent:
  "elements ((parent_path ^^ i) p) = take (length (elements p) - i) (elements p)"
proof (induction i)
  case 0
  show ?case by simp
next
  case (Suc i)
  have "elements ((parent_path ^^ Suc i) p) = butlast (elements ((parent_path ^^ i) p))"
    by (simp add: elements_parent_path)
  also have "\<dots> = butlast (take (length (elements p) - i) (elements p))"
    by (simp only: Suc.IH)
  also have "\<dots> = take (length (elements p) - Suc i) (elements p)"
    by (simp add: butlast_take)
  finally show ?case .
qed

lemma path_empty_iff: "p = empty_path \<longleftrightarrow> elements p = []"
  by (cases p) (simp add: empty_path_def)

lemma iterated_parent_empty_iff:
  "(parent_path ^^ i) p = empty_path \<longleftrightarrow> length (elements p) \<le> i"
  by (auto simp add: path_empty_iff elements_iterated_parent)

lemma length_ancestor_chain: "length (ancestor_chain d) = length (elements d)"
  by (simp add: ancestor_chain_def)

lemma nth_ancestor_chain:
  "i < length (elements d) \<Longrightarrow> ancestor_chain d ! i = (parent_path ^^ i) d"
  by (simp add: ancestor_chain_def)

lemma ancestor_chain_empty: "ancestor_chain empty_path = []"
  by (simp add: ancestor_chain_def empty_path_def)

lemma ancestor_chain_step:
  assumes "d \<noteq> empty_path"
  shows "ancestor_chain d = d # ancestor_chain (parent_path d)"
proof -
  from assms have "elements d \<noteq> []"
    by (simp add: path_empty_iff)
  then obtain n where n: "length (elements d) = Suc n"
    by (cases "elements d") auto
  have len: "length (elements (parent_path d)) = n"
    using n by (simp add: elements_parent_path)
  have "ancestor_chain d = map (\<lambda>i. (parent_path ^^ i) d) (0 # map Suc [0..<n])"
    unfolding ancestor_chain_def n by (simp only: upt_conv_Cons map_Suc_upt zero_less_Suc)
  also have "\<dots> = d # map (\<lambda>i. (parent_path ^^ i) (parent_path d)) [0..<n]"
    by (simp add: funpow_swap1 comp_def)
  also have "\<dots> = d # ancestor_chain (parent_path d)"
    by (simp add: ancestor_chain_def len)
  finally show ?thesis .
qed

lemma set_ancestor_chain:
  "set (ancestor_chain d) = {a. a \<noteq> empty_path \<and> (\<exists>i. a = (parent_path ^^ i) d)}"
proof -
  have "set (ancestor_chain d) = (\<lambda>i. (parent_path ^^ i) d) ` {i. i < length (elements d)}"
    by (auto simp add: ancestor_chain_def)
  also have "\<dots> = {a. a \<noteq> empty_path \<and> (\<exists>i. a = (parent_path ^^ i) d)}"
    by (auto simp add: iterated_parent_empty_iff)
  finally show ?thesis .
qed


lemma ancestor_chain_depth:
  "i < length (elements d) \<Longrightarrow>
     length (elements (ancestor_chain d ! i)) = length (elements d) - i"
  by (simp add: nth_ancestor_chain elements_iterated_parent)


section \<open>The loop computes the first hit along the ancestor chain\<close>

lemma find_dominating_file_eq_find:
  "find_dominating_file filename d P =
     Some (List.find P (map (\<lambda>a. path_append a filename) (ancestor_chain d)))"
proof (induction "length (elements d)" arbitrary: d)
  case 0
  then have "d = empty_path"
    by (simp add: path_empty_iff)
  then show ?case
    by (simp add: find_dominating_file.simps ancestor_chain_empty)
next
  case (Suc n)
  then have ne: "d \<noteq> empty_path"
    by (auto simp add: path_empty_iff)
  from Suc.hyps(2) have "n = length (elements (parent_path d))"
    by (simp add: elements_parent_path)
  then have IH: "find_dominating_file filename (parent_path d) P =
     Some (List.find P (map (\<lambda>a. path_append a filename) (ancestor_chain (parent_path d))))"
    by (rule Suc.hyps(1))
  show ?case
  proof (cases "P (path_append d filename)")
    case True
    then show ?thesis
      using ne by (subst find_dominating_file.simps) (simp add: ancestor_chain_step)
  next
    case False
    then show ?thesis
      using ne IH by (subst find_dominating_file.simps) (simp add: ancestor_chain_step)
  qed
qed

text \<open>
  Two runs of the loop: from an absolute directory the search ends at the root directory,
  from a relative one at its first element; the current working directory is not part of
  a relative path's chain.
\<close>

lemma find_dominating_file_absolute_example:
  "find_dominating_file ''yabridge.toml'' (Path [''/'', ''home'', ''user''])
     (\<lambda>p. p = Path [''/'', ''yabridge.toml'']) = Some (Some (Path [''/'', ''yabridge.toml'']))"
  by (simp add: find_dominating_file.simps path_append_def parent_path_def empty_path_def)

lemma find_dominating_file_relative_example:
  "find_dominating_file ''yabridge.toml'' (Path [''plugins'', ''synth''])
     (\<lambda>p. p = Path [''yabridge.toml'']) = Some None"
  by (simp add: find_dominating_file.simps path_append_def parent_path_def empty_path_def)


section \<open>Claims about \<^verbatim>\<open>find_dominating_file\<close>\<close>

text \<open>
  C9. For every file name, starting directory and predicate, \<^verbatim>\<open>find_dominating_file\<close>
  returns \<^verbatim>\<open>ancestor / filename\<close> for the deepest ancestor of the starting directory (the
  starting directory itself first, then each successive parent) whose candidate path
  satisfies the predicate: the candidates of all deeper ancestors fail the predicate and
  the returned candidate passes it. It returns \<^verbatim>\<open>std::nullopt\<close> when no ancestor's candidate
  satisfies the predicate. The result depends on the predicate only through its values on
  the candidates of the ancestor chain: a predicate that differs anywhere else gives the
  same result, so nothing outside the chain is inspected.
\<close>

theorem find_dominating_file_result:
  "((\<exists>i < length (ancestor_chain d).
        find_dominating_file filename d P =
          Some (Some (path_append (ancestor_chain d ! i) filename))
      \<and> P (path_append (ancestor_chain d ! i) filename)
      \<and> (\<forall>j < i. \<not> P (path_append (ancestor_chain d ! j) filename)))
    \<or> (find_dominating_file filename d P = Some None
      \<and> (\<forall>a \<in> set (ancestor_chain d). \<not> P (path_append a filename))))
   \<and> (\<forall>Q. (\<forall>a \<in> set (ancestor_chain d).
              Q (path_append a filename) = P (path_append a filename))
        \<longrightarrow> find_dominating_file filename d Q = find_dominating_file filename d P)"
proof (intro conjI allI impI)
  let ?cs = "map (\<lambda>a. path_append a filename) (ancestor_chain d)"
  show "(\<exists>i < length (ancestor_chain d).
        find_dominating_file filename d P =
          Some (Some (path_append (ancestor_chain d ! i) filename))
      \<and> P (path_append (ancestor_chain d ! i) filename)
      \<and> (\<forall>j < i. \<not> P (path_append (ancestor_chain d ! j) filename)))
    \<or> (find_dominating_file filename d P = Some None
      \<and> (\<forall>a \<in> set (ancestor_chain d). \<not> P (path_append a filename)))"
  proof (cases "List.find P ?cs")
    case None
    then have "\<forall>a \<in> set (ancestor_chain d). \<not> P (path_append a filename)"
      by (auto simp add: find_None_iff)
    with None show ?thesis
      by (simp add: find_dominating_file_eq_find)
  next
    case (Some c)
    then obtain i where i: "i < length ?cs" "P (?cs ! i)" "c = ?cs ! i"
      "\<forall>j < i. \<not> P (?cs ! j)"
      unfolding find_Some_iff by blast
    from i(1) have il: "i < length (ancestor_chain d)" by simp
    have "find_dominating_file filename d P =
        Some (Some (path_append (ancestor_chain d ! i) filename))"
      using Some i(3) il by (simp add: find_dominating_file_eq_find)
    moreover have "P (path_append (ancestor_chain d ! i) filename)"
      using i(2) il by simp
    moreover have "\<forall>j < i. \<not> P (path_append (ancestor_chain d ! j) filename)"
      using i(4) il by simp
    ultimately show ?thesis using il by blast
  qed
next
  fix Q
  assume agree: "\<forall>a \<in> set (ancestor_chain d).
              Q (path_append a filename) = P (path_append a filename)"
  have "List.find Q (map (\<lambda>a. path_append a filename) (ancestor_chain d)) =
        List.find P (map (\<lambda>a. path_append a filename) (ancestor_chain d))"
    by (rule find_cong) (use agree in auto)
  then show "find_dominating_file filename d Q = find_dominating_file filename d P"
    by (simp add: find_dominating_file_eq_find)
qed

theorem find_dominating_file_result_witness:
  "1 < length (ancestor_chain (Path [''/'', ''home'', ''user'', ''.wine'', ''drive_c'']))
   \<and> find_dominating_file ''dosdevices''
        (Path [''/'', ''home'', ''user'', ''.wine'', ''drive_c''])
        (\<lambda>p. p = Path [''/'', ''home'', ''user'', ''.wine'', ''dosdevices'']
             \<or> p = Path [''/'', ''dosdevices''])
      = Some (Some (path_append
          (ancestor_chain (Path [''/'', ''home'', ''user'', ''.wine'', ''drive_c'']) ! 1)
          ''dosdevices''))
   \<and> path_append (ancestor_chain (Path [''/'', ''home'', ''user'', ''.wine'', ''drive_c'']) ! 1)
        ''dosdevices'' = Path [''/'', ''home'', ''user'', ''.wine'', ''dosdevices'']
   \<and> path_append (ancestor_chain (Path [''/'', ''home'', ''user'', ''.wine'', ''drive_c'']) ! 0)
        ''dosdevices'' \<noteq> Path [''/'', ''home'', ''user'', ''.wine'', ''dosdevices'']"
proof -
  let ?d = "Path [''/'', ''home'', ''user'', ''.wine'', ''drive_c'']"
  let ?P = "\<lambda>p. p = Path [''/'', ''home'', ''user'', ''.wine'', ''dosdevices'']
             \<or> p = Path [''/'', ''dosdevices'']"
  have chain: "ancestor_chain ?d =
    [Path [''/'', ''home'', ''user'', ''.wine'', ''drive_c''],
     Path [''/'', ''home'', ''user'', ''.wine''],
     Path [''/'', ''home'', ''user''],
     Path [''/'', ''home''],
     Path [''/'']]"
    by (simp add: ancestor_chain_def parent_path_def upt_rec numeral_eq_Suc)
  have not_nullopt: "find_dominating_file ''dosdevices'' ?d ?P \<noteq> Some None"
    by (simp add: find_dominating_file.simps path_append_def parent_path_def empty_path_def)
  from find_dominating_file_result [of ?d "''dosdevices''" ?P] not_nullopt
  obtain i where i: "i < length (ancestor_chain ?d)"
    "find_dominating_file ''dosdevices'' ?d ?P =
       Some (Some (path_append (ancestor_chain ?d ! i) ''dosdevices''))"
    "?P (path_append (ancestor_chain ?d ! i) ''dosdevices'')"
    "\<forall>j < i. \<not> ?P (path_append (ancestor_chain ?d ! j) ''dosdevices'')"
    by blast
  have hit: "?P (path_append (ancestor_chain ?d ! 1) ''dosdevices'')"
    by (simp add: chain path_append_def)
  have "i \<le> 1"
  proof (rule ccontr)
    assume "\<not> i \<le> 1"
    then have "1 < i" by simp
    with i(4) have "\<not> ?P (path_append (ancestor_chain ?d ! 1) ''dosdevices'')"
      by blast
    with hit show False by blast
  qed
  moreover have "i \<noteq> 0"
  proof
    assume "i = 0"
    with i(3) show False
      by (simp add: chain path_append_def)
  qed
  ultimately have "i = 1" by simp
  with i(2) show ?thesis
    by (simp add: chain path_append_def)
qed

text \<open>
  C10. \<^verbatim>\<open>find_dominating_file\<close> terminates for every starting path and predicate: replacing
  the directory by its parent path reaches the empty path after as many steps as the path
  has elements, for absolute and relative paths alike, and the function returns a value
  (a found path or \<^verbatim>\<open>std::nullopt\<close>).
\<close>

theorem find_dominating_file_terminates:
  "(parent_path ^^ length (elements starting_dir)) starting_dir = empty_path
   \<and> (\<exists>result. find_dominating_file filename starting_dir predicate = Some result)"
proof
  show "(parent_path ^^ length (elements starting_dir)) starting_dir = empty_path"
    by (simp add: iterated_parent_empty_iff)
next
  show "\<exists>result. find_dominating_file filename starting_dir predicate = Some result"
  proof (induction "length (elements starting_dir)" arbitrary: starting_dir)
    case 0
    then have "starting_dir = empty_path"
      by (simp add: path_empty_iff)
    then have "find_dominating_file filename starting_dir predicate = Some None"
      by (simp add: find_dominating_file.simps)
    then show ?case ..
  next
    case (Suc n)
    then have not_empty: "starting_dir \<noteq> empty_path"
      by (auto simp add: path_empty_iff)
    show ?case
    proof (cases "predicate (path_append starting_dir filename)")
      case True
      with not_empty have "find_dominating_file filename starting_dir predicate =
          Some (Some (path_append starting_dir filename))"
        by (subst find_dominating_file.simps) simp
      then show ?thesis ..
    next
      case False
      from Suc.hyps(2) have "n = length (elements (parent_path starting_dir))"
        by (simp add: elements_parent_path)
      then obtain result where
        "find_dominating_file filename (parent_path starting_dir) predicate = Some result"
        using Suc.hyps(1) by blast
      with not_empty False
      have "find_dominating_file filename starting_dir predicate = Some result"
        by (subst find_dominating_file.simps) simp
      then show ?thesis ..
    qed
  qed
qed


section \<open>Claims about the editor\<close>

text \<open>
  C3. Opening and closing the editor are idempotent: the open dispatch while the editor is
  already Open and the close dispatch while it is already Closed each have exactly one
  behaviour, which returns without an error, does no window action (no window is created,
  none is torn down) and leaves the editor state unchanged. An Open editor owns exactly one
  window, so two open dispatches in a row end with one open window and no error on the
  second call.
\<close>

theorem editor_open_close_idempotent:
  "(dispatch_wrapper (Editor w) effEditOpen out acts e'
      \<longleftrightarrow> (\<exists>ret. out = Inr ret) \<and> acts = [] \<and> e' = Editor w)
   \<and> (dispatch_wrapper Monostate effEditClose out acts e'
      \<longleftrightarrow> (\<exists>ret. out = Inr ret) \<and> acts = [] \<and> e' = Monostate)
   \<and> open_windows (Editor w) = [w]
   \<and> (dispatch_wrapper e effEditOpen out1 acts1 e1
        \<and> dispatch_wrapper e1 effEditOpen out2 acts2 e2
      \<longrightarrow> (\<exists>ret. out2 = Inr ret) \<and> acts2 = [] \<and> e2 = e1
          \<and> length (open_windows e2) = 1)"
proof -
  have open_noop: "dispatch_wrapper (Editor w) effEditOpen out acts e'
      \<longleftrightarrow> (\<exists>ret. out = Inr ret) \<and> acts = [] \<and> e' = Editor w"
    by (auto elim: dispatch_wrapper_open intro: dispatch_wrapper.open_again)
  have close_noop: "dispatch_wrapper Monostate effEditClose out acts e'
      \<longleftrightarrow> (\<exists>ret. out = Inr ret) \<and> acts = [] \<and> e' = Monostate"
    by (auto elim: dispatch_wrapper_close intro: dispatch_wrapper.close_again)
  have one_window: "open_windows (Editor w) = [w]"
    by simp
  have twice: "(\<exists>ret. out2 = Inr ret) \<and> acts2 = [] \<and> e2 = e1
          \<and> length (open_windows e2) = 1"
    if two: "dispatch_wrapper e effEditOpen out1 acts1 e1
        \<and> dispatch_wrapper e1 effEditOpen out2 acts2 e2"
  proof -
    from two obtain v where e1: "e1 = Editor v"
      by (auto elim: dispatch_wrapper_open)
    with two have "dispatch_wrapper (Editor v) effEditOpen out2 acts2 e2"
      by simp
    then have "(\<exists>ret. out2 = Inr ret) \<and> acts2 = [] \<and> e2 = Editor v"
      by (auto elim: dispatch_wrapper_open)
    with e1 show ?thesis
      by simp
  qed
  from open_noop close_noop one_window twice show ?thesis
    by blast
qed

theorem editor_open_close_idempotent_witness:
  "dispatch_wrapper EditorOpening effEditOpen (Inr 0) [CreateWindow 7] (Editor 7)
   \<and> dispatch_wrapper (Editor 7) effEditOpen (Inr 0) [] (Editor 7)
   \<and> length (open_windows (Editor 7)) = 1
   \<and> dispatch_wrapper Monostate effEditClose (Inr 0) [] Monostate"
proof -
  have first: "dispatch_wrapper EditorOpening effEditOpen (Inr 0) [CreateWindow 7] (Editor 7)"
    by (rule dispatch_wrapper.open_editor)
  have second: "dispatch_wrapper (Editor 7) effEditOpen (Inr 0) [] (Editor 7)"
    using editor_open_close_idempotent [of 7 "Inr 0" "[]" "Editor 7"] by simp
  have "length (open_windows (Editor 7)) = 1"
    using first second
      editor_open_close_idempotent [of _ _ _ _ EditorOpening "Inr 0" "[CreateWindow 7]"
        "Editor 7" "Inr 0" "[]" "Editor 7"]
    by blast
  moreover have "dispatch_wrapper Monostate effEditClose (Inr 0) [] Monostate"
    using editor_open_close_idempotent [of _ "Inr 0" "[]" Monostate] by simp
  ultimately show ?thesis
    using first second by simp
qed

end
